theory Spec2Isabelle
  imports Main "HOL-Library.Sublist"
begin

section \<open>Go library functions used by the package\<close>

text \<open>
  Package \<^verbatim>\<open>strings\<close>. Go strings are byte sequences, as \<^typ>\<open>string\<close> is.
  \<^verbatim>\<open>TrimRight\<close> takes a cutset; \<^verbatim>\<open>Split\<close> is only ever called with the one-byte
  separator \<^verbatim>\<open>"/"\<close>, so the separator is a character here.
\<close>

definition HasPrefix :: "string \<Rightarrow> string \<Rightarrow> bool" where
  "HasPrefix s pre = prefix pre s"

definition TrimPrefix :: "string \<Rightarrow> string \<Rightarrow> string" where
  "TrimPrefix s pre = (if HasPrefix s pre then drop (length pre) s else s)"

definition TrimRight :: "string \<Rightarrow> string \<Rightarrow> string" where
  "TrimRight s cutset = rev (dropWhile (\<lambda>c. c \<in> set cutset) (rev s))"

fun Split :: "string \<Rightarrow> char \<Rightarrow> string list" where
  "Split [] sep = [[]]"
| "Split (c # cs) sep =
     (if c = sep then [] # Split cs sep
      else (case Split cs sep of w # ws \<Rightarrow> (c # w) # ws | [] \<Rightarrow> [[c]]))"

text \<open>
  Errors. \<^verbatim>\<open>os.ErrNotExist\<close>, \<^verbatim>\<open>os.ErrInvalid\<close> and \<^verbatim>\<open>io.EOF\<close> are sentinel
  values; \<^verbatim>\<open>errors.New(msg)\<close> is an error carrying its message; \<open>LibError\<close> stands for
  an error produced inside \<^verbatim>\<open>archive/zip\<close> or by the byte source.
\<close>

datatype error =
    ErrNotExist
  | ErrInvalid
  | EOF
  | ErrorString string
  | LibError string

definition errors_New :: "string \<Rightarrow> error" where
  "errors_New msg = ErrorString msg"

text \<open>
  Go's \<^verbatim>\<open>int64\<close> arithmetic wraps around; offsets are mathematical integers here and
  \<open>int64\<close> folds a result back into the 64-bit two's-complement range.
\<close>

definition int64 :: "int \<Rightarrow> int" where
  "int64 x = (x + 2 ^ 63) mod 2 ^ 64 - 2 ^ 63"

definition maxint64 :: int where
  "maxint64 = 2 ^ 63 - 1"

definition SeekStart :: int where
  "SeekStart = 0"

definition SeekCurrent :: int where
  "SeekCurrent = 1"

definition SeekEnd :: int where
  "SeekEnd = 2"

text \<open>A run-time panic ends the call without a result.\<close>

datatype panic = TypeAssertionPanic | NilDereferencePanic | SliceBoundsPanic

section \<open>Path trie\<close>

text \<open>
  Modelled from the spec: the trie (\<^verbatim>\<open>newTrie\<close>, \<^verbatim>\<open>Add\<close>, \<^verbatim>\<open>Find\<close>,
  \<^verbatim>\<open>PrefixSearch\<close> and the node's \<^verbatim>\<open>meta\<close> field) is called by the two source
  files but its own file is not among them. Following sections 3 and 4.1 of the
  specification: a node owns a mapping from single path segments to child nodes, an
  optional metadata value and its own full path; the root node represents \<^verbatim>\<open>/\<close>; a
  node's full path is its parent's full path joined with its own segment by \<^verbatim>\<open>/\<close>;
  trailing slashes are stripped before indexing except for the root path; \<^verbatim>\<open>Add\<close>
  creates or reuses the nodes along the chain and overwrites the metadata at the end;
  \<^verbatim>\<open>Find\<close> is an exact match, with no normalization of the path it is given, so a
  path with a trailing slash other than the root does not reach the node indexed without
  it; \<^verbatim>\<open>PrefixSearch\<close> lists the full path of every populated node in the subtree at
  the prefix's node position. The child mapping is an association list in insertion
  order, which fixes the enumeration order.
\<close>

datatype 'm node = Node (path: string) (meta: "'m option") (children: "(string \<times> 'm node) list")

definition path_segments :: "string \<Rightarrow> string list" where
  "path_segments p = (if p = ''/'' then [] else Split (TrimPrefix p ''/'') (CHR ''/''))"

definition strip_trailing :: "string \<Rightarrow> string" where
  "strip_trailing p = (let q = TrimRight p ''/'' in if q = [] then ''/'' else q)"

definition newTrie :: "'m node" where
  "newTrie = Node ''/'' None []"

text \<open>
  \<open>add_node pre\<close> walks the segments from a node; \<open>pre\<close> is what the full paths of the
  node's children start with, empty at the root, so that a child of the root is
  \<^verbatim>\<open>/seg\<close> and a child of \<^verbatim>\<open>/a\<close> is \<^verbatim>\<open>/a/seg\<close>.
\<close>

fun add_node :: "string \<Rightarrow> string list \<Rightarrow> 'm \<Rightarrow> 'm node \<Rightarrow> 'm node" where
  "add_node pre [] m (Node p mt cs) = Node p (Some m) cs"
| "add_node pre (s # ss) m (Node p mt cs) =
     (case map_of cs s of
        None \<Rightarrow>
          Node p mt (cs @ [(s, add_node (pre @ ''/'' @ s) ss m (Node (pre @ ''/'' @ s) None []))])
      | Some _ \<Rightarrow>
          Node p mt (map (\<lambda>kc. if fst kc = s
                               then (fst kc, add_node (pre @ ''/'' @ s) ss m (snd kc))
                               else kc) cs))"

fun find_node :: "string list \<Rightarrow> 'm node \<Rightarrow> 'm node option" where
  "find_node [] n = Some n"
| "find_node (s # ss) n =
     (case map_of (children n) s of None \<Rightarrow> None | Some c \<Rightarrow> find_node ss c)"

fun collect :: "'m node \<Rightarrow> string list" where
  "collect (Node p mt cs) =
     (if mt = None then [] else [p]) @ concat (map (\<lambda>kc. collect (snd kc)) cs)"

definition Add :: "'m node \<Rightarrow> string \<Rightarrow> 'm \<Rightarrow> 'm node" where
  "Add t p m = add_node [] (path_segments (strip_trailing p)) m t"

definition Find :: "'m node \<Rightarrow> string \<Rightarrow> 'm node option" where
  "Find t p = (if HasPrefix p ''/'' then find_node (path_segments p) t else None)"

definition PrefixSearch :: "'m node \<Rightarrow> string \<Rightarrow> string list" where
  "PrefixSearch t pre =
     (if HasPrefix pre ''/''
      then (case find_node (path_segments (strip_trailing pre)) t of
              None \<Rightarrow> []
            | Some n \<Rightarrow> collect n)
      else [])"

section \<open>Archive entries, as \<^verbatim>\<open>archive/zip\<close> presents them\<close>

type_synonym byte = char

text \<open>
  The stream returned by \<^verbatim>\<open>(*zip.File).Open\<close>: the bytes still to be delivered and the
  error \<^verbatim>\<open>Read\<close> reports once they are used up (\<open>EOF\<close>, or a library error such as
  a checksum mismatch).
\<close>

record stream =
  pending :: "byte list"
  final :: error

text \<open>
  \<^verbatim>\<open>zip.FileHeader\<close>, with the fields the package reads. \<open>AttrDir\<close> is the directory
  bit that \<^verbatim>\<open>Mode()\<close> derives from the external attributes; \<^verbatim>\<open>Mode()\<close> also sets
  the directory bit when the name ends in a slash. \<^verbatim>\<open>zip.File\<close> embeds the header and
  adds the access to the data: the results of \<^verbatim>\<open>DataOffset()\<close> and of \<^verbatim>\<open>Open()\<close>.
\<close>

record FileHeader =
  Name :: string
  AttrDir :: bool
  Method :: nat
  UncompressedSize64 :: nat

record zip_File = FileHeader +
  DataOffset :: "error + int"
  OpenStream :: "error + stream"

definition Store :: nat where
  "Store = 0"

definition Deflate :: nat where
  "Deflate = 8"

definition IsDir :: "'a FileHeader_scheme \<Rightarrow> bool" where
  "IsDir h = (AttrDir h \<or> (Name h \<noteq> [] \<and> last (Name h) = CHR ''/''))"

definition zero_FileHeader :: FileHeader where
  "zero_FileHeader = \<lparr>Name = [], AttrDir = False, Method = 0, UncompressedSize64 = 0\<rparr>"

section \<open>Byte sources and readers of package \<^verbatim>\<open>io\<close> and \<^verbatim>\<open>bytes\<close>\<close>

text \<open>
  An \<^verbatim>\<open>io.ReaderAt\<close> is a finite byte sequence. \<^verbatim>\<open>ReadAt\<close> with a buffer of
  \<open>len\<close> bytes returns the bytes available from the offset on, and \<open>EOF\<close> when they
  are fewer than the buffer.
\<close>

definition ReadAt :: "byte list \<Rightarrow> nat \<Rightarrow> int \<Rightarrow> byte list \<times> error option" where
  "ReadAt src len ofs =
     (if ofs < 0 then ([], Some (LibError ''negative offset''))
      else (let bs = take len (drop (nat ofs) src)
            in (bs, if length bs < len then Some EOF else None)))"

text \<open>\<^verbatim>\<open>io.SectionReader\<close>: \<^verbatim>\<open>NewSectionReader\<close>, \<^verbatim>\<open>Read\<close> and \<^verbatim>\<open>Seek\<close>.\<close>

record SectionReader =
  sr_r :: "byte list"
  sr_base :: int
  sr_off :: int
  sr_limit :: int
  sr_n :: int

definition NewSectionReader :: "byte list \<Rightarrow> int \<Rightarrow> int \<Rightarrow> SectionReader" where
  "NewSectionReader src ofs n =
     \<lparr>sr_r = src, sr_base = ofs, sr_off = ofs,
      sr_limit = (if ofs \<le> int64 (maxint64 - n) then int64 (n + ofs) else maxint64),
      sr_n = n\<rparr>"

definition SectionReader_Read :: "SectionReader \<Rightarrow> nat \<Rightarrow> (byte list \<times> error option) \<times> SectionReader" where
  "SectionReader_Read s len =
     (if sr_off s \<ge> sr_limit s then (([], Some EOF), s)
      else (let mx = sr_limit s - sr_off s;
                len' = (if int len > mx then nat mx else len);
                res = ReadAt (sr_r s) len' (sr_off s)
            in (res, s\<lparr>sr_off := sr_off s + int (length (fst res))\<rparr>)))"

definition SectionReader_Seek :: "SectionReader \<Rightarrow> int \<Rightarrow> int \<Rightarrow> (int \<times> error option) \<times> SectionReader" where
  "SectionReader_Seek s offset whence =
     (if whence \<noteq> SeekStart \<and> whence \<noteq> SeekCurrent \<and> whence \<noteq> SeekEnd
      then ((0, Some (errors_New ''Seek: invalid whence'')), s)
      else (let offset' = int64 (offset +
                   (if whence = SeekStart then sr_base s
                    else if whence = SeekCurrent then sr_off s else sr_limit s))
            in if offset' < sr_base s then ((0, Some (errors_New ''Seek: invalid offset'')), s)
               else ((int64 (offset' - sr_base s), None), s\<lparr>sr_off := offset'\<rparr>)))"

text \<open>\<^verbatim>\<open>bytes.Reader\<close>, which the file \<^verbatim>\<open>zipfs.go\<close> wraps around the decompressed bytes.\<close>

record bytes_Reader =
  br_s :: "byte list"
  br_i :: int

definition bytes_NewReader :: "byte list \<Rightarrow> bytes_Reader" where
  "bytes_NewReader b = \<lparr>br_s = b, br_i = 0\<rparr>"

definition bytes_Reader_Read :: "bytes_Reader \<Rightarrow> nat \<Rightarrow> (byte list \<times> error option) \<times> bytes_Reader" where
  "bytes_Reader_Read rd len =
     (if br_i rd \<ge> int (length (br_s rd)) then (([], Some EOF), rd)
      else (let bs = take len (drop (nat (br_i rd)) (br_s rd))
            in ((bs, None), rd\<lparr>br_i := br_i rd + int (length bs)\<rparr>)))"

definition bytes_Reader_Seek :: "bytes_Reader \<Rightarrow> int \<Rightarrow> int \<Rightarrow> (int \<times> error option) \<times> bytes_Reader" where
  "bytes_Reader_Seek rd offset whence =
     (if whence \<noteq> SeekStart \<and> whence \<noteq> SeekCurrent \<and> whence \<noteq> SeekEnd
      then ((0, Some (errors_New ''bytes.Reader.Seek: invalid whence'')), rd)
      else (let abs = (if whence = SeekStart then offset
                       else if whence = SeekCurrent then int64 (br_i rd + offset)
                       else int64 (int (length (br_s rd)) + offset))
            in if abs < 0 then ((0, Some (errors_New ''bytes.Reader.Seek: negative position'')), rd)
               else ((abs, None), rd\<lparr>br_i := abs\<rparr>)))"

text \<open>
  Reading the stream of an entry: a read delivers the next bytes, at most the buffer's
  length, and the stream's final error once nothing is pending. \<^verbatim>\<open>ioutil.ReadAll\<close>
  returns everything up to \<open>EOF\<close>, or the error that ended the stream.
\<close>

definition stream_Read :: "stream \<Rightarrow> nat \<Rightarrow> (byte list \<times> error option) \<times> stream" where
  "stream_Read st len =
     (if pending st = [] then (([], Some (final st)), st)
      else ((take len (pending st), None), st\<lparr>pending := drop len (pending st)\<rparr>))"

definition ReadAll :: "stream \<Rightarrow> error + byte list" where
  "ReadAll st = (if final st = EOF then Inr (pending st) else Inl (final st))"

section \<open>Directory descriptors and the index\<close>

record zipDir =
  Info :: FileHeader
  Files :: "zip_File list"

record zipRootInfo =
  rootTime :: nat

record zipRoot =
  zipDir :: zipDir
  RootInfo :: zipRootInfo

text \<open>The dynamic type of a node's \<^verbatim>\<open>meta\<close>: \<^verbatim>\<open>*zip.File\<close>, \<^verbatim>\<open>zipDir\<close> or \<^verbatim>\<open>zipRoot\<close>.\<close>

datatype meta = MetaFile zip_File | MetaDir zipDir | MetaRoot zipRoot

record zipFS =
  zip_Reader :: "zip_File list"
  readerAt :: "byte list option"
  trie :: "meta node"

section \<open>Construction (the unnamed source file): \<^verbatim>\<open>NewZipFSWithReaderAt\<close>\<close>

definition one_segment :: "string \<Rightarrow> bool" where
  "one_segment name = (length (Split (TrimRight name ''/'') (CHR ''/'')) = 1)"

text \<open>First loop: the state is the trie, the list \<^verbatim>\<open>dirs\<close> and \<^verbatim>\<open>rootDir.Files\<close>.\<close>

definition index_entry :: "meta node \<times> zip_File list \<times> zip_File list \<Rightarrow> zip_File
    \<Rightarrow> meta node \<times> zip_File list \<times> zip_File list" where
  "index_entry st entry =
     (case st of (tr, dirs, rootFiles) \<Rightarrow>
        (if IsDir entry
         then Add tr (''/'' @ TrimRight (Name entry) ''/'') (MetaFile entry)
         else Add tr (''/'' @ Name entry) (MetaFile entry),
         if IsDir entry then dirs @ [entry] else dirs,
         if one_segment (Name entry) then rootFiles @ [entry] else rootFiles))"

text \<open>
  Inner loop of the second pass, over the result of \<^verbatim>\<open>PrefixSearch\<close>. A missing node
  makes \<^verbatim>\<open>node.meta\<close> a nil dereference, a metadata value that is not a \<^verbatim>\<open>*zip.File\<close>
  fails the type assertion, and the slice expression panics when the directory's name is
  longer than the sub-entry's.
\<close>

fun dir_contents :: "meta node \<Rightarrow> zip_File \<Rightarrow> string list \<Rightarrow> zip_File list
    \<Rightarrow> panic + zip_File list" where
  "dir_contents tr entry [] files = Inr files"
| "dir_contents tr entry (dirContent # rest) files =
     (if \<not> HasPrefix dirContent (''/'' @ Name entry) \<or>
         length (Split (TrimRight (TrimPrefix dirContent (''/'' @ Name entry)) ''/'') (CHR ''/'')) > 1
      then dir_contents tr entry rest files
      else (case Find tr dirContent of
              None \<Rightarrow> Inl NilDereferencePanic
            | Some nd \<Rightarrow>
                (case meta nd of
                   Some (MetaFile subentry) \<Rightarrow>
                     (if length (Name entry) > length (Name subentry) then Inl SliceBoundsPanic
                      else dir_contents tr entry rest
                             (files @ [subentry\<lparr>Name := drop (length (Name entry)) (Name subentry)\<rparr>]))
                 | _ \<Rightarrow> Inl TypeAssertionPanic)))"

fun fake_directories :: "meta node \<Rightarrow> zip_File list \<Rightarrow> panic + meta node" where
  "fake_directories tr [] = Inr tr"
| "fake_directories tr (entry # dirs) =
     (let name = ''/'' @ TrimRight (Name entry) ''/''
      in case dir_contents tr entry (PrefixSearch tr name) [] of
           Inl p \<Rightarrow> Inl p
         | Inr files \<Rightarrow>
             fake_directories
               (Add tr name (MetaDir \<lparr>Info = FileHeader.truncate entry, Files = files\<rparr>)) dirs)"

definition NewZipFSWithReaderAt :: "zip_File list \<Rightarrow> byte list option \<Rightarrow> nat \<Rightarrow> panic + zipFS" where
  "NewZipFSWithReaderAt z rAt now =
     (case foldl index_entry (newTrie, [], []) z of (tr, dirs, rootFiles) \<Rightarrow>
        (case fake_directories tr dirs of
           Inl p \<Rightarrow> Inl p
         | Inr tr' \<Rightarrow>
             Inr \<lparr>zip_Reader = z, readerAt = rAt,
                  trie = Add tr' ''/''
                    (MetaRoot \<lparr>zipDir = \<lparr>Info = zero_FileHeader, Files = rootFiles\<rparr>,
                               RootInfo = \<lparr>rootTime = now\<rparr>\<rparr>)\<rparr>))"

definition NewZipFS :: "zip_File list \<Rightarrow> nat \<Rightarrow> panic + zipFS" where
  "NewZipFS z now = NewZipFSWithReaderAt z None now"

section \<open>File handles and \<^verbatim>\<open>Open\<close> (the unnamed source file)\<close>

text \<open>
  The values behind \<^verbatim>\<open>http.File\<close>: \<^verbatim>\<open>*uncompressedFile\<close>, \<^verbatim>\<open>*compressedFile\<close>,
  \<^verbatim>\<open>*zipDir\<close>, \<^verbatim>\<open>*zipRoot\<close> and, in \<^verbatim>\<open>zipfs.go\<close>, \<^verbatim>\<open>*zipFile\<close>. The type
  switch of \<^verbatim>\<open>Open\<close> binds \<^verbatim>\<open>entry\<close> to a copy of the \<^verbatim>\<open>zipDir\<close> or \<^verbatim>\<open>zipRoot\<close>
  value held in the node and returns the address of that copy, so a directory handle
  carries its own descriptor value.
\<close>

datatype http_File =
    UncompressedFile SectionReader zip_File
  | CompressedFile stream zip_File
  | ZipDirFile zipDir
  | ZipRootFile zipRoot
  | ZipFileFile FileHeader bytes_Reader

datatype FileInfo = headerFileInfo FileHeader | rootFileInfo zipRootInfo

definition FileInfo :: "zip_File \<Rightarrow> FileInfo" where
  "FileInfo f = headerFileInfo (FileHeader.truncate f)"

definition processZipFile :: "zipFS \<Rightarrow> zip_File \<Rightarrow> error + http_File" where
  "processZipFile fs entry =
     (case (readerAt fs, Method entry = Store) of
        (Some src, True) \<Rightarrow>
          (case DataOffset entry of
             Inl err \<Rightarrow> Inl err
           | Inr offset \<Rightarrow>
               Inr (UncompressedFile
                      (NewSectionReader src offset (int64 (int (UncompressedSize64 entry)))) entry))
      | _ \<Rightarrow>
          (case OpenStream entry of
             Inl err \<Rightarrow> Inl err
           | Inr ff \<Rightarrow> Inr (CompressedFile ff entry)))"

definition Open :: "zipFS \<Rightarrow> string \<Rightarrow> error + http_File" where
  "Open fs name =
     (if \<not> HasPrefix name ''/'' then Inl ErrNotExist
      else (case Find (trie fs) name of
              None \<Rightarrow> Inl ErrNotExist
            | Some nd \<Rightarrow>
                (case meta nd of
                   Some (MetaFile entry) \<Rightarrow> processZipFile fs entry
                 | Some (MetaDir entry) \<Rightarrow> Inr (ZipDirFile entry)
                 | Some (MetaRoot entry) \<Rightarrow> Inr (ZipRootFile entry)
                 | None \<Rightarrow> Inl ErrNotExist)))"

text \<open>\<^verbatim>\<open>(*zipDir).Readdir\<close>, the same text in both source files.\<close>

definition Readdir :: "zipDir \<Rightarrow> int \<Rightarrow> (FileInfo list \<times> error option) \<times> zipDir" where
  "Readdir f count =
     (if length (Files f) = 0 then (([], Some EOF), f)
      else (let count' = (if count < 0 \<or> count > int (length (Files f))
                          then int (length (Files f)) else count)
            in ((map FileInfo (take (nat count') (Files f)), None),
                f\<lparr>Files := drop (nat count') (Files f)\<rparr>)))"

text \<open>The methods of \<^verbatim>\<open>http.File\<close>, by the handle's dynamic type.\<close>

fun file_Read :: "http_File \<Rightarrow> nat \<Rightarrow> (byte list \<times> error option) \<times> http_File" where
  "file_Read (UncompressedFile s e) len =
     (case SectionReader_Read s len of (res, s') \<Rightarrow> (res, UncompressedFile s' e))"
| "file_Read (CompressedFile st e) len =
     (case stream_Read st len of (res, st') \<Rightarrow> (res, CompressedFile st' e))"
| "file_Read (ZipDirFile d) len = (([], Some ErrInvalid), ZipDirFile d)"
| "file_Read (ZipRootFile rt) len = (([], Some ErrInvalid), ZipRootFile rt)"
| "file_Read (ZipFileFile h rd) len =
     (case bytes_Reader_Read rd len of (res, rd') \<Rightarrow> (res, ZipFileFile h rd'))"

fun file_Seek :: "http_File \<Rightarrow> int \<Rightarrow> int \<Rightarrow> (int \<times> error option) \<times> http_File" where
  "file_Seek (UncompressedFile s e) offset whence =
     (case SectionReader_Seek s offset whence of (res, s') \<Rightarrow> (res, UncompressedFile s' e))"
| "file_Seek (CompressedFile st e) offset whence =
     ((- 1, Some (errors_New ''seek on compressed file'')), CompressedFile st e)"
| "file_Seek (ZipDirFile d) offset whence = ((0, Some ErrInvalid), ZipDirFile d)"
| "file_Seek (ZipRootFile rt) offset whence = ((0, Some ErrInvalid), ZipRootFile rt)"
| "file_Seek (ZipFileFile h rd) offset whence =
     (case bytes_Reader_Seek rd offset whence of (res, rd') \<Rightarrow> (res, ZipFileFile h rd'))"

fun file_Readdir :: "http_File \<Rightarrow> int \<Rightarrow> (FileInfo list \<times> error option) \<times> http_File" where
  "file_Readdir (UncompressedFile s e) count =
     (([], Some (errors_New ''not a directory'')), UncompressedFile s e)"
| "file_Readdir (CompressedFile st e) count =
     (([], Some (errors_New ''not a directory'')), CompressedFile st e)"
| "file_Readdir (ZipDirFile d) count =
     (case Readdir d count of (res, d') \<Rightarrow> (res, ZipDirFile d'))"
| "file_Readdir (ZipRootFile rt) count =
     (case Readdir (zipDir rt) count of (res, d') \<Rightarrow> (res, ZipRootFile (rt\<lparr>zipDir := d'\<rparr>)))"
| "file_Readdir (ZipFileFile h rd) count = (([], Some ErrInvalid), ZipFileFile h rd)"

section \<open>The file \<^verbatim>\<open>zipfs.go\<close>: construction and \<^verbatim>\<open>Open\<close> without a byte source\<close>

text \<open>
  \<^verbatim>\<open>zipfs.go\<close> declares the same names as the unnamed file; its definitions carry
  the suffix \<open>_zipfs_go\<close>. Its \<^verbatim>\<open>zipFS\<close> has no \<^verbatim>\<open>readerAt\<close>. The inner loop compares
  entries by address (\<^verbatim>\<open>subentry != entry\<close>), which is a comparison of positions in
  \<^verbatim>\<open>z.File\<close>.
\<close>

record zipFS_zipfs_go =
  zip_zipfs_go :: "zip_File list"
  trie_zipfs_go :: "meta node"

definition subentries_zipfs_go :: "zip_File list \<Rightarrow> nat \<Rightarrow> zip_File list" where
  "subentries_zipfs_go z i =
     map (\<lambda>(j, subentry). subentry\<lparr>Name := drop (length (Name (z ! i))) (Name subentry)\<rparr>)
       (filter (\<lambda>(j, subentry).
                  HasPrefix (Name subentry) (Name (z ! i)) \<and> j \<noteq> i \<and>
                  length (Split (TrimRight (TrimPrefix (Name subentry) (Name (z ! i))) ''/'')
                            (CHR ''/'')) = 1)
          (zip [0..<length z] z))"

definition index_entry_zipfs_go :: "zip_File list \<Rightarrow> meta node \<times> zip_File list \<Rightarrow> nat
    \<Rightarrow> meta node \<times> zip_File list" where
  "index_entry_zipfs_go z st i =
     (case st of (tr, rootFiles) \<Rightarrow>
        (if IsDir (z ! i)
         then Add tr (''/'' @ TrimRight (Name (z ! i)) ''/'')
                (MetaDir \<lparr>Info = FileHeader.truncate (z ! i), Files = subentries_zipfs_go z i\<rparr>)
         else Add tr (''/'' @ Name (z ! i)) (MetaFile (z ! i)),
         if one_segment (Name (z ! i)) then rootFiles @ [z ! i] else rootFiles))"

definition NewZipFS_zipfs_go :: "zip_File list \<Rightarrow> nat \<Rightarrow> zipFS_zipfs_go" where
  "NewZipFS_zipfs_go z now =
     (case foldl (index_entry_zipfs_go z) (newTrie, []) [0..<length z] of (tr, rootFiles) \<Rightarrow>
        \<lparr>zip_zipfs_go = z,
         trie_zipfs_go = Add tr ''/''
           (MetaRoot \<lparr>zipDir = \<lparr>Info = zero_FileHeader, Files = rootFiles\<rparr>,
                      RootInfo = \<lparr>rootTime = now\<rparr>\<rparr>)\<rparr>)"

definition Open_zipfs_go :: "zipFS_zipfs_go \<Rightarrow> string \<Rightarrow> error + http_File" where
  "Open_zipfs_go fs name =
     (case Find (trie_zipfs_go fs) name of
        None \<Rightarrow> Inl ErrNotExist
      | Some nd \<Rightarrow>
          (case meta nd of
             Some (MetaFile entry) \<Rightarrow>
               (case OpenStream entry of
                  Inl err \<Rightarrow> Inl err
                | Inr f \<Rightarrow>
                    (case ReadAll f of
                       Inl err \<Rightarrow> Inl err
                     | Inr rawData \<Rightarrow>
                         Inr (ZipFileFile (FileHeader.truncate entry) (bytes_NewReader rawData))))
           | Some (MetaDir entry) \<Rightarrow> Inr (ZipDirFile entry)
           | Some (MetaRoot entry) \<Rightarrow> Inr (ZipRootFile entry)
           | None \<Rightarrow> Inl ErrNotExist))"

section \<open>Open handles\<close>

text \<open>
  Every successful \<^verbatim>\<open>Open\<close> allocates a new object and returns its address. The heap
  of open handles is a list and an address is a position in it; the filesystem value
  holds the index. A method call on a handle replaces the object at its address. An
  address that \<^verbatim>\<open>Open\<close> never returned does not occur in a Go program; a call on one
  is answered with \<open>ErrInvalid\<close> and changes nothing.
\<close>

record world =
  filesystem :: zipFS
  heap :: "http_File list"

definition Open_handle :: "world \<Rightarrow> string \<Rightarrow> (error + nat) \<times> world" where
  "Open_handle w name =
     (case Open (filesystem w) name of
        Inl err \<Rightarrow> (Inl err, w)
      | Inr h \<Rightarrow> (Inr (length (heap w)), w\<lparr>heap := heap w @ [h]\<rparr>))"

definition Readdir_handle :: "world \<Rightarrow> nat \<Rightarrow> int \<Rightarrow> (FileInfo list \<times> error option) \<times> world" where
  "Readdir_handle w a count =
     (if a < length (heap w)
      then (case file_Readdir (heap w ! a) count of
              (res, h') \<Rightarrow> (res, w\<lparr>heap := (heap w)[a := h']\<rparr>))
      else (([], Some ErrInvalid), w))"

text \<open>
  A run of \<^verbatim>\<open>Readdir\<close> calls on one handle, with the children the run returned, and
  the children a handle has still to return.
\<close>

fun Readdirs_handle :: "world \<Rightarrow> nat \<Rightarrow> int list \<Rightarrow> FileInfo list \<times> world" where
  "Readdirs_handle w a [] = ([], w)"
| "Readdirs_handle w a (count # counts) =
     (case Readdir_handle w a count of
        ((infos, err), w') \<Rightarrow>
          (case Readdirs_handle w' a counts of (later, w'') \<Rightarrow> (infos @ later, w'')))"

fun remaining :: "http_File \<Rightarrow> FileInfo list" where
  "remaining (ZipDirFile d) = map FileInfo (Files d)"
| "remaining (ZipRootFile rt) = map FileInfo (Files (zipDir rt))"
| "remaining h = []"

text \<open>A run of reads and seeks on one handle.\<close>

datatype call = ReadCall nat | SeekCall int int

fun perform :: "http_File \<Rightarrow> call \<Rightarrow> http_File" where
  "perform h (ReadCall len) = snd (file_Read h len)"
| "perform h (SeekCall offset whence) = snd (file_Seek h offset whence)"

definition performs :: "http_File \<Rightarrow> call list \<Rightarrow> http_File" where
  "performs h calls = foldl perform h calls"

text \<open>
  Successive \<^verbatim>\<open>Read\<close> calls on one handle with buffers of the given lengths: the bytes
  they return, one after the other, and the handle they leave.
\<close>

fun reads :: "http_File \<Rightarrow> nat list \<Rightarrow> byte list \<times> http_File" where
  "reads h [] = ([], h)"
| "reads h (len # lens) =
     (case file_Read h len of
        ((bs, err), h') \<Rightarrow> (case reads h' lens of (later, h'') \<Rightarrow> (bs @ later, h'')))"

text \<open>
  What stays true of the section reader inside a random-access handle: it reads the source
  \<open>src\<close>, its section starts at \<open>ofs\<close>, has \<open>n\<close> bytes and ends within the \<^verbatim>\<open>int64\<close>
  range, and its position is not before the start.
\<close>

definition section_inv :: "byte list \<Rightarrow> int \<Rightarrow> nat \<Rightarrow> SectionReader \<Rightarrow> bool" where
  "section_inv src ofs n s =
     (0 \<le> ofs \<and> ofs + int n \<le> maxint64 \<and>
      sr_r s = src \<and> sr_base s = ofs \<and> sr_limit s = ofs + int n \<and>
      ofs \<le> sr_off s \<and> sr_off s \<le> maxint64)"

section \<open>Reading the index\<close>

text \<open>
  What the index holds at a position: the metadata of the node there, if the node exists
  and is populated. The position an entry is indexed under is the path the first loop
  passes to \<^verbatim>\<open>Add\<close>; the second loop passes the same path for a directory entry.
\<close>

definition lookup :: "'m node \<Rightarrow> string list \<Rightarrow> 'm option" where
  "lookup nd ks = (case find_node ks nd of None \<Rightarrow> None | Some n \<Rightarrow> meta n)"

definition index_path :: "zip_File \<Rightarrow> string" where
  "index_path e = (if IsDir e then ''/'' @ TrimRight (Name e) ''/'' else ''/'' @ Name e)"

definition listed :: "zip_File list \<Rightarrow> string \<Rightarrow> bool" where
  "listed z p = (\<exists>e \<in> set z. path_segments (index_path e) = path_segments p)"

section \<open>Example archives\<close>

text \<open>
  An entry with the given name, compression method and content, whose stream opens and
  ends with \<open>EOF\<close>; it is a directory entry exactly when the name ends in a slash.
\<close>

definition entry_of :: "string \<Rightarrow> nat \<Rightarrow> byte list \<Rightarrow> zip_File" where
  "entry_of name method content =
     \<lparr>Name = name, AttrDir = False, Method = method, UncompressedSize64 = length content,
      DataOffset = Inr 0, OpenStream = Inr \<lparr>pending = content, final = EOF\<rparr>\<rparr>"

definition scenario :: "zip_File list" where
  "scenario = [entry_of ''a.txt'' Store ''hello'', entry_of ''dir/'' Store [],
               entry_of ''dir/b.txt'' Deflate ''world'']"

definition scenario_fs :: zipFS where
  "scenario_fs = projr (NewZipFSWithReaderAt scenario (Some ''hello'') 0)"

text \<open>The scenario's archive with a byte source that holds other bytes than the archive.\<close>

definition other_source_fs :: zipFS where
  "other_source_fs = projr (NewZipFSWithReaderAt scenario (Some ''jelly'') 0)"

definition scenario_world :: world where
  "scenario_world = \<lparr>filesystem = projr (NewZipFSWithReaderAt scenario None 0), heap = []\<rparr>"

definition world_a :: world where
  "world_a = snd (Open_handle scenario_world ''/'')"

definition world_b :: world where
  "world_b = snd (Open_handle world_a ''/'')"

definition world_c :: world where
  "world_c = snd (Readdirs_handle world_b 0 [1, 0, 5, 1])"

definition implicit_example :: "zip_File list" where
  "implicit_example = [entry_of ''docs/readme.txt'' Deflate ''hi'', entry_of ''img/'' Store []]"

section \<open>Properties of the helpers and of the trie\<close>

lemma Split_nonempty: "Split s sep \<noteq> []"
  by (induction s) (auto split: list.splits)

lemma map_of_map_child:
  "map_of (map (\<lambda>kc. if fst kc = s then (fst kc, f (snd kc)) else kc) cs) k =
     (if k = s then map_option f (map_of cs s) else map_of cs k)"
  by (induction cs) auto

lemma lookup_Nil [simp]: "lookup (Node p mt cs) [] = mt"
  by (simp add: lookup_def)

lemma lookup_Cons [simp]:
  "lookup (Node p mt cs) (k # ks) = (case map_of cs k of None \<Rightarrow> None | Some c \<Rightarrow> lookup c ks)"
  by (simp add: lookup_def split: option.splits)

lemma lookup_fresh [simp]: "lookup (Node p None []) ks = None"
  by (cases ks) simp_all

text \<open>\<^verbatim>\<open>Add\<close> overwrites the metadata at its own position and changes no other.\<close>

lemma lookup_add_node:
  "lookup (add_node pre ks m nd) ks' = (if ks' = ks then Some m else lookup nd ks')"
proof (induction ks arbitrary: nd ks' pre)
  case Nil
  then show ?case by (cases nd; cases ks') simp_all
next
  case (Cons s ss)
  obtain p mt cs where nd: "nd = Node p mt cs" by (cases nd)
  show ?case
  proof (cases ks')
    case Nil
    then show ?thesis by (simp add: nd split: option.splits)
  next
    case (Cons k ks'')
    show ?thesis
    proof (cases "map_of cs s")
      case None
      then show ?thesis
        using Cons.IH [of "pre @ ''/'' @ s" "Node (pre @ ''/'' @ s) None []" ks'']
        by (auto simp: nd Cons map_add_def split: option.splits)
    next
      case (Some c)
      then show ?thesis
        using Cons.IH [of "pre @ ''/'' @ s" c ks'']
        by (auto simp: nd Cons map_of_map_child split: option.splits)
    qed
  qed
qed

lemma lookup_Add:
  "lookup (Add tr p m) ks = (if ks = path_segments (strip_trailing p) then Some m else lookup tr ks)"
  by (simp add: Add_def lookup_add_node)

lemma path_segments_root [simp]: "path_segments ''/'' = []"
  by (simp add: path_segments_def)

text \<open>
  \<^verbatim>\<open>TrimRight\<close> leaves nothing to strip, and a path that does not end in a slash, or is
  the root, is indexed as it stands. Every path the constructors pass to \<^verbatim>\<open>Add\<close> is
  of that kind.
\<close>

lemma TrimRight_done: "TrimRight s c = [] \<or> last (TrimRight s c) \<notin> set c"
proof (cases "dropWhile (\<lambda>x. x \<in> set c) (rev s) = []")
  case True
  then show ?thesis by (simp add: TrimRight_def)
next
  case False
  with hd_dropWhile [OF False] show ?thesis by (simp add: TrimRight_def last_rev)
qed

lemma TrimRight_id: "s \<noteq> [] \<Longrightarrow> last s \<notin> set c \<Longrightarrow> TrimRight s c = s"
  by (cases s rule: rev_cases) (simp_all add: TrimRight_def)

lemma strip_trailing_id:
  "q = [] \<or> last q \<noteq> CHR ''/'' \<Longrightarrow> strip_trailing (CHR ''/'' # q) = CHR ''/'' # q"
proof (cases "q = []")
  case True
  then show ?thesis by (simp add: strip_trailing_def TrimRight_def)
next
  case False
  assume "q = [] \<or> last q \<noteq> CHR ''/''"
  with False have "TrimRight (CHR ''/'' # q) ''/'' = CHR ''/'' # q"
    by (intro TrimRight_id) simp_all
  then show ?thesis by (simp add: strip_trailing_def)
qed

lemma strip_trailing_dir_path:
  "strip_trailing (CHR ''/'' # TrimRight n ''/'') = CHR ''/'' # TrimRight n ''/''"
  using TrimRight_done [of n "''/''"] strip_trailing_id [of "TrimRight n ''/''"] by auto

lemma strip_trailing_index_path: "strip_trailing (index_path e) = index_path e"
proof (cases "IsDir e")
  case True
  then show ?thesis by (simp add: index_path_def strip_trailing_dir_path)
next
  case False
  then have "Name e = [] \<or> last (Name e) \<noteq> CHR ''/''" by (auto simp: IsDir_def)
  from strip_trailing_id [OF this] False show ?thesis by (simp add: index_path_def)
qed

lemma strip_trailing_root [simp]: "strip_trailing ''/'' = ''/''"
  by (simp add: strip_trailing_def TrimRight_def)

section \<open>What construction leaves in the index\<close>

lemma foldl_index_entry:
  "foldl index_entry (tr, dirs, rf) z =
     (foldl (\<lambda>tr e. Add tr (index_path e) (MetaFile e)) tr z,
      dirs @ filter IsDir z,
      rf @ filter (\<lambda>e. one_segment (Name e)) z)"
  by (induction z arbitrary: tr dirs rf) (simp_all add: index_entry_def index_path_def)

lemma lookup_pass1:
  "lookup (foldl (\<lambda>tr e. Add tr (index_path e) (MetaFile e)) tr z) ks = Some m \<Longrightarrow>
     lookup tr ks = Some m \<or> (\<exists>e \<in> set z. m = MetaFile e \<and> ks = path_segments (index_path e))"
proof (induction z arbitrary: tr)
  case Nil
  then show ?case by simp
next
  case (Cons e z)
  from Cons.IH [OF Cons.prems [simplified]]
  show ?case by (auto simp: lookup_Add strip_trailing_index_path split: if_splits)
qed

lemma lookup_fake_directories:
  "fake_directories tr dirs = Inr tr' \<Longrightarrow> lookup tr' ks = Some m \<Longrightarrow>
     lookup tr ks = Some m \<or>
     (\<exists>e \<in> set dirs. \<exists>d. m = MetaDir d \<and> ks = path_segments (''/'' @ TrimRight (Name e) ''/''))"
proof (induction dirs arbitrary: tr)
  case Nil
  then show ?case by simp
next
  case (Cons e dirs)
  let ?name = "''/'' @ TrimRight (Name e) ''/''"
  from Cons.prems(1) obtain files where
    rest: "fake_directories (Add tr ?name (MetaDir \<lparr>Info = FileHeader.truncate e, Files = files\<rparr>)) dirs = Inr tr'"
    by (auto simp: Let_def split: sum.splits)
  from Cons.IH [OF rest Cons.prems(2)]
  show ?case by (auto simp: lookup_Add strip_trailing_dir_path split: if_splits)
qed

lemma lookup_NewZipFSWithReaderAt:
  assumes new: "NewZipFSWithReaderAt z rAt now = Inr fs" and lk: "lookup (trie fs) ks = Some m"
  shows "(ks = [] \<and> (\<exists>rt. m = MetaRoot rt)) \<or>
         (\<exists>e \<in> set z. ks = path_segments (index_path e) \<and>
            (m = MetaFile e \<or> (IsDir e \<and> (\<exists>d. m = MetaDir d))))"
proof -
  let ?tr1 = "foldl (\<lambda>tr e. Add tr (index_path e) (MetaFile e)) newTrie z"
  from new obtain tr2 rt where
    pass2: "fake_directories ?tr1 ([] @ filter IsDir z) = Inr tr2" and
    fs: "trie fs = Add tr2 ''/'' (MetaRoot rt)"
    by (auto simp: NewZipFSWithReaderAt_def foldl_index_entry split: sum.splits)
  show ?thesis
  proof (cases "ks = []")
    case True
    with lk fs show ?thesis by (auto simp: lookup_Add)
  next
    case False
    with lk fs have lk2: "lookup tr2 ks = Some m" by (simp add: lookup_Add)
    from lookup_fake_directories [OF pass2 lk2]
    show ?thesis
    proof
      assume "lookup ?tr1 ks = Some m"
      from lookup_pass1 [OF this] show ?thesis
        by (auto simp: newTrie_def)
    next
      assume "\<exists>e \<in> set ([] @ filter IsDir z). \<exists>d. m = MetaDir d \<and>
                ks = path_segments (''/'' @ TrimRight (Name e) ''/'')"
      then show ?thesis by (auto simp: index_path_def)
    qed
  qed
qed

text \<open>\<^verbatim>\<open>Open\<close> on an absolute path is decided by what the index holds at the path's position.\<close>

lemma Open_lookup:
  "HasPrefix name ''/'' \<Longrightarrow>
   Open fs name =
     (case lookup (trie fs) (path_segments name) of
        None \<Rightarrow> Inl ErrNotExist
      | Some (MetaFile entry) \<Rightarrow> processZipFile fs entry
      | Some (MetaDir entry) \<Rightarrow> Inr (ZipDirFile entry)
      | Some (MetaRoot entry) \<Rightarrow> Inr (ZipRootFile entry))"
  by (simp add: Open_def Find_def lookup_def split: option.splits meta.splits)

lemma processZipFile_not_dir:
  "processZipFile fs e \<noteq> Inr (ZipDirFile d)" "processZipFile fs e \<noteq> Inr (ZipRootFile rt)"
  by (auto simp: processZipFile_def split: option.splits sum.splits bool.splits)

section \<open>Implicit directories\<close>

text \<open>
  Claim C9. After a construction that completes, \<^verbatim>\<open>Open\<close> on a path other than the
  root under which no archive entry is indexed (in particular a directory that occurs
  only as a prefix of entry names) returns the not-found error; a directory handle is
  returned only for the path of an explicitly listed directory entry, and the root handle
  only for the root path.
\<close>

theorem implicit_directory_not_found:
  assumes "NewZipFSWithReaderAt z rAt now = Inr fs"
  shows "(path_segments p \<noteq> [] \<and> \<not> listed z p \<longrightarrow> Open fs p = Inl ErrNotExist) \<and>
         (Open fs p = Inr (ZipDirFile d) \<longrightarrow>
            (\<exists>e \<in> set z. IsDir e \<and> path_segments (index_path e) = path_segments p)) \<and>
         (Open fs p = Inr (ZipRootFile rt) \<longrightarrow> path_segments p = [])"
proof (cases "HasPrefix p ''/''")
  case False
  then show ?thesis by (simp add: Open_def)
next
  case True
  note char = lookup_NewZipFSWithReaderAt [OF assms, of "path_segments p"]
  show ?thesis
  proof (cases "lookup (trie fs) (path_segments p)")
    case None
    then show ?thesis by (simp add: Open_lookup [OF True])
  next
    case (Some m)
    from char [OF Some] show ?thesis
      using Some processZipFile_not_dir
      by (auto simp: Open_lookup [OF True] listed_def split: meta.splits)
  qed
qed

theorem implicit_directory_not_found_witness:
  "path_segments ''/docs'' \<noteq> [] \<and> \<not> listed implicit_example ''/docs'' \<and>
   (case NewZipFSWithReaderAt implicit_example None 0 of
      Inl pn \<Rightarrow> False
    | Inr fs \<Rightarrow> Open fs ''/docs'' = Inl ErrNotExist)"
proof -
  have "\<not> isl (NewZipFSWithReaderAt implicit_example None 0)" by code_simp
  then obtain fs where fs: "NewZipFSWithReaderAt implicit_example None 0 = Inr fs"
    by (cases "NewZipFSWithReaderAt implicit_example None 0") auto
  have s: "path_segments ''/docs'' \<noteq> []" by code_simp
  have l: "\<not> listed implicit_example ''/docs''" by code_simp
  from implicit_directory_not_found [OF fs, of "''/docs''"] s l
  have "Open fs ''/docs'' = Inl ErrNotExist" by blast
  then show ?thesis using fs s l by simp
qed

section \<open>Nested directory entries listed child first\<close>

text \<open>
  Claim C10. For the archive that lists the directory entry \<^verbatim>\<open>a/b/\<close> before the
  directory entry \<^verbatim>\<open>a/\<close>, construction ends in the panic of the type assertion
  \<^verbatim>\<open>node.meta.(*zip.File)\<close>: when \<^verbatim>\<open>a/\<close> is processed, the node of \<^verbatim>\<open>/a/b\<close> already
  holds a \<^verbatim>\<open>zipDir\<close>. With the two entries in the other order construction completes.
\<close>

theorem child_directory_first_panics:
  "NewZipFSWithReaderAt [entry_of ''a/b/'' Store [], entry_of ''a/'' Store []] rAt now
     = Inl TypeAssertionPanic \<and>
   \<not> isl (NewZipFSWithReaderAt [entry_of ''a/'' Store [], entry_of ''a/b/'' Store []] rAt now)"
  by code_simp

section \<open>Listing a directory\<close>

lemma Readdir_exhausted: "Files f = [] \<Longrightarrow> Readdir f count = (([], Some EOF), f)"
  by (simp add: Readdir_def)

lemma Readdir_all:
  "Files f \<noteq> [] \<Longrightarrow> count < 0 \<or> count > int (length (Files f)) \<Longrightarrow>
   Readdir f count = ((map FileInfo (Files f), None), f\<lparr>Files := []\<rparr>)"
  by (auto simp: Readdir_def)

lemma Readdir_some:
  "Files f \<noteq> [] \<Longrightarrow> 0 \<le> count \<Longrightarrow> count \<le> int (length (Files f)) \<Longrightarrow>
   Readdir f count = ((map FileInfo (take (nat count) (Files f)), None),
                      f\<lparr>Files := drop (nat count) (Files f)\<rparr>)"
  by (auto simp: Readdir_def)

text \<open>
  Claim C5 at the count zero. On a directory handle with at least one child left,
  \<^verbatim>\<open>Readdir(0)\<close> returns an empty list and no error and leaves the cursor where it was:
  the test \<^verbatim>\<open>count < 0\<close> does not cover zero, so zero is not treated as "all remaining".
\<close>

theorem Readdir_zero_count:
  "Readdir \<lparr>Info = header, Files = f # fs\<rparr> 0 = (([], None), \<lparr>Info = header, Files = f # fs\<rparr>)"
  by (simp add: Readdir_def)

lemma Readdir_split:
  "Readdir f count = ((infos, err), f') \<Longrightarrow>
   infos @ map FileInfo (Files f') = map FileInfo (Files f) \<and> Info f' = Info f"
  by (auto simp: Readdir_def Let_def take_map [symmetric] drop_map [symmetric] split: if_splits)

lemma file_Readdir_split:
  "file_Readdir h count = ((infos, err), h') \<Longrightarrow> infos @ remaining h' = remaining h"
  by (cases h) (auto split: prod.splits dest: Readdir_split)

lemma Readdir_handle_frame:
  assumes "Readdir_handle w a count = (res, w')"
  shows "filesystem w' = filesystem w" and "length (heap w') = length (heap w)"
    and "b \<noteq> a \<Longrightarrow> heap w' ! b = heap w ! b"
  using assms by (auto simp: Readdir_handle_def split: if_splits prod.splits)

lemma Readdir_handle_split:
  assumes "Readdir_handle w a count = ((infos, err), w')" and "a < length (heap w)"
  shows "infos @ remaining (heap w' ! a) = remaining (heap w ! a)"
  using assms by (auto simp: Readdir_handle_def split: prod.splits dest: file_Readdir_split)

lemma Readdirs_handle_frame:
  "Readdirs_handle w a counts = (infos, w') \<Longrightarrow>
   filesystem w' = filesystem w \<and> length (heap w') = length (heap w) \<and>
   (b \<noteq> a \<longrightarrow> heap w' ! b = heap w ! b)"
proof (induction counts arbitrary: w infos w')
  case Nil
  then show ?case by simp
next
  case (Cons count counts)
  obtain i1 e1 w1 where r: "Readdir_handle w a count = ((i1, e1), w1)"
    by (metis prod.exhaust)
  obtain i2 w2 where rs: "Readdirs_handle w1 a counts = (i2, w2)" by (metis prod.exhaust)
  from Cons.prems r rs have "w' = w2" by simp
  with Cons.IH [OF rs] Readdir_handle_frame [OF r] show ?case by simp
qed

lemma Readdirs_handle_split:
  "Readdirs_handle w a counts = (infos, w') \<Longrightarrow> a < length (heap w) \<Longrightarrow>
   infos @ remaining (heap w' ! a) = remaining (heap w ! a)"
proof (induction counts arbitrary: w infos w')
  case Nil
  then show ?case by simp
next
  case (Cons count counts)
  obtain i1 e1 w1 where r: "Readdir_handle w a count = ((i1, e1), w1)"
    by (metis prod.exhaust)
  obtain i2 w2 where rs: "Readdirs_handle w1 a counts = (i2, w2)" by (metis prod.exhaust)
  from Cons.prems(1) r rs have eq: "infos = i1 @ i2" "w' = w2" by simp_all
  have len: "a < length (heap w1)" using Readdir_handle_frame(2) [OF r] Cons.prems(2) by simp
  from Cons.IH [OF rs len] Readdir_handle_split [OF r Cons.prems(2)] eq
  show ?case by (metis append.assoc)
qed

lemma Readdir_handle_all:
  assumes "b < length (heap w)" and "remaining (heap w ! b) \<noteq> []"
  shows "fst (Readdir_handle w b (- 1)) = (remaining (heap w ! b), None)"
  using assms by (cases "heap w ! b") (auto simp: Readdir_handle_def Readdir_def split: prod.splits)

text \<open>
  Claim C6. Let two handles \<open>a\<close> and \<open>b\<close> be opened on the same path, and let any run of
  \<^verbatim>\<open>Readdir\<close> calls be made on \<open>a\<close>. The handles are distinct objects, each a copy of
  the descriptor the index holds; the run leaves the filesystem value, and so the indexed
  descriptor, as it was, and a further \<^verbatim>\<open>Open\<close> still returns the full descriptor; the
  children the run returned, followed by the children \<open>a\<close> has still to return, are the
  child list \<open>a\<close> started with, so no child is returned twice; the object at \<open>b\<close> is
  untouched, and \<^verbatim>\<open>Readdir(-1)\<close> on \<open>b\<close> afterwards returns the whole child list.
\<close>

theorem readdir_per_handle_state:
  assumes o1: "Open_handle w p = (Inr a, w1)"
      and o2: "Open_handle w1 p = (Inr b, w2)"
      and run: "Readdirs_handle w2 a counts = (infos, w3)"
  shows "a \<noteq> b \<and>
         Open (filesystem w) p = Inr (heap w2 ! a) \<and>
         Open (filesystem w) p = Inr (heap w2 ! b) \<and>
         filesystem w3 = filesystem w \<and>
         Open (filesystem w3) p = Inr (heap w2 ! b) \<and>
         infos @ remaining (heap w3 ! a) = remaining (heap w2 ! a) \<and>
         heap w3 ! b = heap w2 ! b \<and>
         (remaining (heap w2 ! b) \<noteq> [] \<longrightarrow>
            fst (Readdir_handle w3 b (- 1)) = (remaining (heap w2 ! b), None))"
proof -
  from o1 obtain h where h: "Open (filesystem w) p = Inr h" and a: "a = length (heap w)"
    and w1: "w1 = w\<lparr>heap := heap w @ [h]\<rparr>"
    by (auto simp: Open_handle_def split: sum.splits)
  from o2 w1 h have b: "b = Suc (length (heap w))" and w2: "w2 = w\<lparr>heap := heap w @ [h, h]\<rparr>"
    by (auto simp: Open_handle_def split: sum.splits)
  have ha: "heap w2 ! a = h" and hb: "heap w2 ! b = h"
    by (simp_all add: a b w2 nth_append)
  have la: "a < length (heap w2)" and lb: "b < length (heap w2)" by (simp_all add: a b w2)
  have ab: "a \<noteq> b" by (simp add: a b)
  from Readdirs_handle_frame [OF run, of b] ab
  have fr: "filesystem w3 = filesystem w2" "length (heap w3) = length (heap w2)"
    "heap w3 ! b = heap w2 ! b" by simp_all
  have fs2: "filesystem w2 = filesystem w" by (simp add: w2)
  have "remaining (heap w2 ! b) \<noteq> [] \<longrightarrow>
          fst (Readdir_handle w3 b (- 1)) = (remaining (heap w2 ! b), None)"
    using Readdir_handle_all [of b w3] fr lb by simp
  with ab h ha hb fr fs2 Readdirs_handle_split [OF run la] show ?thesis by simp
qed

theorem readdir_per_handle_state_witness:
  "Open_handle scenario_world ''/'' = (Inr 0, world_a) \<and>
   Open_handle world_a ''/'' = (Inr 1, world_b) \<and>
   Readdirs_handle world_b 0 [1, 0, 5, 1] = (remaining (heap world_b ! 0), world_c) \<and>
   remaining (heap world_c ! 0) = [] \<and>
   length (remaining (heap world_b ! 1)) = 2 \<and>
   heap world_c ! 1 = heap world_b ! 1 \<and>
   fst (Readdir_handle world_c 1 (- 1)) = (remaining (heap world_b ! 1), None)"
proof -
  have o1: "Open_handle scenario_world ''/'' = (Inr 0, world_a)" by code_simp
  have o2: "Open_handle world_a ''/'' = (Inr 1, world_b)" by code_simp
  have run: "Readdirs_handle world_b 0 [1, 0, 5, 1] = (remaining (heap world_b ! 0), world_c)"
    by code_simp
  have rest: "remaining (heap world_c ! 0) = []" by code_simp
  have two: "length (remaining (heap world_b ! 1)) = 2" by code_simp
  then have ne: "remaining (heap world_b ! 1) \<noteq> []" by auto
  from readdir_per_handle_state [OF o1 o2 run] ne o1 o2 run rest two
  show ?thesis by simp
qed

section \<open>Paths that are not in the index\<close>


lemma Open_zipfs_go_lookup:
  "HasPrefix name ''/'' \<Longrightarrow>
   Open_zipfs_go g name =
     (case lookup (trie_zipfs_go g) (path_segments name) of
        None \<Rightarrow> Inl ErrNotExist
      | Some (MetaFile entry) \<Rightarrow>
          (case OpenStream entry of
             Inl err \<Rightarrow> Inl err
           | Inr f \<Rightarrow>
               (case ReadAll f of
                  Inl err \<Rightarrow> Inl err
                | Inr rawData \<Rightarrow>
                    Inr (ZipFileFile (FileHeader.truncate entry) (bytes_NewReader rawData))))
      | Some (MetaDir entry) \<Rightarrow> Inr (ZipDirFile entry)
      | Some (MetaRoot entry) \<Rightarrow> Inr (ZipRootFile entry))"
  by (simp add: Open_zipfs_go_def Find_def lookup_def split: option.splits meta.splits)

lemma Open_zipfs_go_relative:
  "\<not> HasPrefix name ''/'' \<Longrightarrow> Open_zipfs_go g name = Inl ErrNotExist"
  by (simp add: Open_zipfs_go_def Find_def)



section \<open>The two kinds of file handle\<close>

text \<open>
  Claim C7. Let the index hold a file entry at an absolute path. With a byte source and
  the method \<open>Store\<close>, \<^verbatim>\<open>Open\<close> returns the error of \<^verbatim>\<open>DataOffset\<close> or else a
  random-access handle over the source, from the data offset, of the uncompressed size;
  in every other case it returns the error of opening the entry's stream or else a
  sequential handle on the opened stream. A random-access handle is returned exactly when
  a byte source was supplied, the method is \<open>Store\<close> and the data offset was computed.
\<close>

theorem open_file_entry_handle:
  assumes "HasPrefix name ''/''"
      and "lookup (trie fs) (path_segments name) = Some (MetaFile entry)"
  shows "(readerAt fs = Some src \<and> Method entry = Store \<longrightarrow>
            Open fs name =
              (case DataOffset entry of
                 Inl err \<Rightarrow> Inl err
               | Inr offset \<Rightarrow>
                   Inr (UncompressedFile
                          (NewSectionReader src offset (int64 (int (UncompressedSize64 entry))))
                          entry))) \<and>
         (readerAt fs = None \<or> Method entry \<noteq> Store \<longrightarrow>
            Open fs name =
              (case OpenStream entry of
                 Inl err \<Rightarrow> Inl err
               | Inr ff \<Rightarrow> Inr (CompressedFile ff entry))) \<and>
         ((\<exists>s e. Open fs name = Inr (UncompressedFile s e)) \<longleftrightarrow>
            readerAt fs \<noteq> None \<and> Method entry = Store \<and> \<not> isl (DataOffset entry))"
  using assms
  by (auto simp: Open_lookup processZipFile_def split: option.splits sum.splits bool.splits)

theorem open_file_entry_handle_witness:
  "HasPrefix ''/a.txt'' ''/'' \<and>
   lookup (trie scenario_fs) (path_segments ''/a.txt'') = Some (MetaFile (entry_of ''a.txt'' Store ''hello'')) \<and>
   lookup (trie scenario_fs) (path_segments ''/dir/b.txt'') = Some (MetaFile (entry_of ''dir/b.txt'' Deflate ''world'')) \<and>
   readerAt scenario_fs = Some ''hello'' \<and>
   Open scenario_fs ''/a.txt'' =
     Inr (UncompressedFile (NewSectionReader ''hello'' 0 5) (entry_of ''a.txt'' Store ''hello'')) \<and>
   Open scenario_fs ''/dir/b.txt'' =
     Inr (CompressedFile \<lparr>pending = ''world'', final = EOF\<rparr> (entry_of ''dir/b.txt'' Deflate ''world''))"
proof -
  have p1: "HasPrefix ''/a.txt'' ''/''" and p2: "HasPrefix ''/dir/b.txt'' ''/''" by code_simp+
  have l1: "lookup (trie scenario_fs) (path_segments ''/a.txt'') = Some (MetaFile (entry_of ''a.txt'' Store ''hello''))"
    by code_simp
  have l2: "lookup (trie scenario_fs) (path_segments ''/dir/b.txt'') = Some (MetaFile (entry_of ''dir/b.txt'' Deflate ''world''))"
    by code_simp
  have r: "readerAt scenario_fs = Some ''hello''" by code_simp
  have m1: "Method (entry_of ''a.txt'' Store ''hello'') = Store" by code_simp
  have m2: "Method (entry_of ''dir/b.txt'' Deflate ''world'') \<noteq> Store" by code_simp
  have d1: "DataOffset (entry_of ''a.txt'' Store ''hello'') = Inr 0" by code_simp
  have u1: "int64 (int (UncompressedSize64 (entry_of ''a.txt'' Store ''hello''))) = 5" by code_simp
  have s2: "OpenStream (entry_of ''dir/b.txt'' Deflate ''world'') = Inr \<lparr>pending = ''world'', final = EOF\<rparr>" by code_simp
  from open_file_entry_handle [OF p1 l1, of "''hello''"] open_file_entry_handle [OF p2 l2, of "''hello''"]
    p1 l1 l2 r m1 m2 d1 u1 s2
  show ?thesis by simp
qed

section \<open>Seeking on a compressed entry\<close>

lemma performs_compressed:
  "\<exists>st'. performs (CompressedFile st e) calls = CompressedFile st' e"
  unfolding performs_def
proof (induction calls arbitrary: st)
  case Nil
  then show ?case by simp
next
  case (Cons c calls)
  show ?case by (cases c) (auto simp: Cons.IH split: prod.splits)
qed

text \<open>
  Claim C4, for the unnamed source file. When the index holds a file entry whose method
  is not \<open>Store\<close>, the handle \<^verbatim>\<open>Open\<close> returns answers every \<^verbatim>\<open>Seek\<close> with \<open>-1\<close>
  and the error "seek on compressed file", after any run of reads and seeks, and the seek
  does not change the handle.
\<close>

theorem compressed_entry_seek_unsupported:
  assumes "lookup (trie fs) (path_segments name) = Some (MetaFile entry)"
      and "Method entry \<noteq> Store"
      and "Open fs name = Inr h"
  shows "file_Seek (performs h calls) offset whence =
           ((- 1, Some (errors_New ''seek on compressed file'')), performs h calls)"
proof -
  from assms(3) have abs: "HasPrefix name ''/''" by (auto simp: Open_def split: if_splits)
  from assms obtain st where "h = CompressedFile st entry"
    by (auto simp: Open_lookup [OF abs] processZipFile_def split: option.splits sum.splits)
  with performs_compressed [of st entry calls] show ?thesis by auto
qed

text \<open>
  Claim C4 does not hold for \<^verbatim>\<open>zipfs.go\<close>: its \<^verbatim>\<open>Open\<close> reads the whole entry into
  memory and its handle seeks in the buffer. On the compressed entry \<^verbatim>\<open>dir/b.txt\<close>
  a seek to offset 3 succeeds.
\<close>

theorem buffered_entry_seek_succeeds:
  "(case Open_zipfs_go (NewZipFS_zipfs_go scenario 0) ''/dir/b.txt'' of
      Inl err \<Rightarrow> None
    | Inr h \<Rightarrow> Some (fst (file_Seek h 3 SeekStart))) = Some (3, None)"
  by code_simp

theorem compressed_entry_seek_unsupported_witness:
  "lookup (trie scenario_fs) (path_segments ''/dir/b.txt'') = Some (MetaFile (entry_of ''dir/b.txt'' Deflate ''world'')) \<and>
   Method (entry_of ''dir/b.txt'' Deflate ''world'') \<noteq> Store \<and>
   Open scenario_fs ''/dir/b.txt'' =
     Inr (CompressedFile \<lparr>pending = ''world'', final = EOF\<rparr> (entry_of ''dir/b.txt'' Deflate ''world'')) \<and>
   fst (file_Seek (performs (CompressedFile \<lparr>pending = ''world'', final = EOF\<rparr> (entry_of ''dir/b.txt'' Deflate ''world''))
                    [ReadCall 2, SeekCall 0 SeekStart, ReadCall 10]) 3 SeekStart)
     = (- 1, Some (errors_New ''seek on compressed file''))"
proof -
  have l2: "lookup (trie scenario_fs) (path_segments ''/dir/b.txt'') = Some (MetaFile (entry_of ''dir/b.txt'' Deflate ''world''))"
    by code_simp
  have m2: "Method (entry_of ''dir/b.txt'' Deflate ''world'') \<noteq> Store" by code_simp
  have o: "Open scenario_fs ''/dir/b.txt'' =
     Inr (CompressedFile \<lparr>pending = ''world'', final = EOF\<rparr> (entry_of ''dir/b.txt'' Deflate ''world''))"
    by code_simp
  from compressed_entry_seek_unsupported [OF l2 m2 o, of "[ReadCall 2, SeekCall 0 SeekStart, ReadCall 10]" 3 SeekStart]
    l2 m2 o
  show ?thesis by simp
qed

section \<open>Random access to a stored entry\<close>

lemma int64_id: "- (2 ^ 63) \<le> x \<Longrightarrow> x < 2 ^ 63 \<Longrightarrow> int64 x = x"
  by (simp add: int64_def)

lemma int64_range: "- (2 ^ 63) \<le> int64 x \<and> int64 x \<le> maxint64"
  unfolding int64_def maxint64_def
  using pos_mod_bound [of "2 ^ 64" "x + 2 ^ 63"] pos_mod_sign [of "2 ^ 64" "x + 2 ^ 63"]
  by simp

lemma int64_small: "0 \<le> x \<Longrightarrow> x \<le> maxint64 \<Longrightarrow> int64 x = x"
  by (rule int64_id) (simp_all add: maxint64_def)

lemma NewSectionReader_inv:
  assumes "0 \<le> ofs" and "ofs + int n \<le> maxint64"
  shows "section_inv src ofs n (NewSectionReader src ofs (int64 (int n)))"
proof -
  have n: "int64 (int n) = int n" using assms by (intro int64_small) simp_all
  have d: "int64 (maxint64 - int n) = maxint64 - int n" using assms by (intro int64_small) simp_all
  have t: "int64 (int n + ofs) = int n + ofs" using assms by (intro int64_small) simp_all
  show ?thesis using assms by (simp add: NewSectionReader_def section_inv_def n d t)
qed

lemma section_slice:
  assumes "take n (drop a src) = content" and "length content = n"
  shows "take (min len (n - p)) (drop (a + p) src) = take len (drop p content)"
proof -
  have "take len (drop p content) = take len (drop p (take n (drop a src)))"
    using assms by simp
  also have "\<dots> = take len (take (n - p) (drop p (drop a src)))"
    by (simp add: drop_take)
  also have "\<dots> = take (min len (n - p)) (drop (a + p) src)"
    by (simp add: add.commute min.commute)
  finally show ?thesis by simp
qed

lemma SectionReader_Read_inv:
  assumes "section_inv src ofs n s"
  shows "section_inv src ofs n (snd (SectionReader_Read s len))"
  using assms
  by (auto simp: section_inv_def SectionReader_Read_def ReadAt_def Let_def)

lemma SectionReader_Read_bytes:
  assumes inv: "section_inv src ofs n s"
      and src: "take n (drop (nat ofs) src) = content" and len: "length content = n"
  shows "fst (fst (SectionReader_Read s len)) = take len (drop (nat (sr_off s - ofs)) content)"
proof (cases "sr_off s \<ge> sr_limit s")
  case True
  with inv len show ?thesis by (simp add: SectionReader_Read_def section_inv_def)
next
  case False
  define p where "p = nat (sr_off s - ofs)"
  from inv False have off: "nat (sr_off s) = nat ofs + p"
    and mx: "nat (sr_limit s - sr_off s) = n - p"
    and nonneg: "\<not> sr_off s < 0" and pn: "p < n"
    by (auto simp: section_inv_def p_def)
  have r: "fst (fst (SectionReader_Read s len)) =
             take (if int len > sr_limit s - sr_off s then nat (sr_limit s - sr_off s) else len)
               (drop (nat (sr_off s)) (sr_r s))"
    using False nonneg by (simp add: SectionReader_Read_def ReadAt_def Let_def)
  have len': "(if int len > sr_limit s - sr_off s then nat (sr_limit s - sr_off s) else len)
                = min len (n - p)"
    using mx False by auto
  have "sr_r s = src" using inv by (simp add: section_inv_def)
  with r len' off have "fst (fst (SectionReader_Read s len)) =
      take (min len (n - p)) (drop (nat ofs + p) src)" by simp
  with section_slice [OF src len, of len p] show ?thesis by (simp add: p_def)
qed

lemma SectionReader_Seek_inv:
  assumes "section_inv src ofs n s"
  shows "section_inv src ofs n (snd (SectionReader_Seek s offset whence))"
  using assms int64_range
  by (auto simp: section_inv_def SectionReader_Seek_def Let_def)

lemma SectionReader_Seek_start:
  assumes inv: "section_inv src ofs n s" and "k \<le> n"
  shows "SectionReader_Seek s (int k) SeekStart = ((int k, None), s\<lparr>sr_off := ofs + int k\<rparr>)"
proof -
  have "int64 (int k + ofs) = int k + ofs"
    using assms by (intro int64_small) (simp_all add: section_inv_def)
  moreover have "int64 (int k) = int k"
    using assms by (intro int64_small) (simp_all add: section_inv_def)
  ultimately show ?thesis using inv
    by (simp add: SectionReader_Seek_def section_inv_def SeekStart_def SeekCurrent_def SeekEnd_def add.commute)
qed

lemma SectionReader_Seek_current:
  assumes inv: "section_inv src ofs n s"
  shows "SectionReader_Seek s 0 SeekCurrent = ((sr_off s - ofs, None), s)"
proof -
  have "int64 (sr_off s) = sr_off s"
    using assms by (intro int64_small) (simp_all add: section_inv_def)
  moreover have "int64 (sr_off s - ofs) = sr_off s - ofs"
    using assms by (intro int64_small) (simp_all add: section_inv_def)
  ultimately show ?thesis using inv
    by (simp add: SectionReader_Seek_def section_inv_def SeekStart_def SeekCurrent_def SeekEnd_def)
qed

lemma SectionReader_Read_off:
  "sr_off (snd (SectionReader_Read s len)) =
     sr_off s + int (length (fst (fst (SectionReader_Read s len))))"
  by (simp add: SectionReader_Read_def Let_def)

lemma performs_uncompressed:
  assumes "section_inv src ofs n s"
  shows "\<exists>s'. performs (UncompressedFile s e) calls = UncompressedFile s' e \<and> section_inv src ofs n s'"
  using assms(1) unfolding performs_def
proof (induction calls arbitrary: s)
  case Nil
  then show ?case by simp
next
  case (Cons c calls)
  show ?case
  proof (cases c)
    case (ReadCall len)
    from SectionReader_Read_inv [OF Cons.prems, of len]
    show ?thesis using Cons.IH by (auto simp: ReadCall split: prod.splits)
  next
    case (SeekCall offset whence)
    from SectionReader_Seek_inv [OF Cons.prems, of offset whence]
    show ?thesis using Cons.IH by (auto simp: SeekCall split: prod.splits)
  qed
qed

text \<open>Two reads in a row return what one read with the joined buffer returns.\<close>

lemma take_then_take:
  "take len xs @ take m (drop (length (take len xs)) xs) = take (len + m) xs"
proof (cases "len \<le> length xs")
  case True
  then show ?thesis by (simp add: take_add min_def)
next
  case False
  then show ?thesis by simp
qed

text \<open>
  A run of reads on a random-access handle returns the bytes of the section from the
  handle's position on, as many as the buffers hold together, and moves the position by
  the number of bytes returned.
\<close>

lemma reads_uncompressed:
  assumes src: "take n (drop (nat ofs) src) = content" and len: "length content = n"
  shows "section_inv src ofs n s \<Longrightarrow>
         \<exists>s'. reads (UncompressedFile s e) lens =
                 (take (sum_list lens) (drop (nat (sr_off s - ofs)) content), UncompressedFile s' e) \<and>
               section_inv src ofs n s' \<and>
               sr_off s' = sr_off s +
                 int (length (take (sum_list lens) (drop (nat (sr_off s - ofs)) content)))"
proof (induction lens arbitrary: s)
  case Nil
  then show ?case by simp
next
  case (Cons l lens)
  let ?p = "nat (sr_off s - ofs)"
  let ?xs = "drop ?p content"
  let ?b = "take l ?xs"
  obtain err s1 where r: "SectionReader_Read s l = ((?b, err), s1)"
    using SectionReader_Read_bytes [OF Cons.prems src len, of l]
    by (metis fst_conv prod.exhaust)
  have inv1: "section_inv src ofs n s1"
    using SectionReader_Read_inv [OF Cons.prems, of l] r by simp
  have off1: "sr_off s1 = sr_off s + int (length ?b)"
    using SectionReader_Read_off [of s l] r by simp
  have "ofs \<le> sr_off s" using Cons.prems by (simp add: section_inv_def)
  then have "sr_off s + int (length ?b) - ofs = int (?p + length ?b)" by simp
  then have p1: "nat (sr_off s1 - ofs) = ?p + length ?b" unfolding off1 by (simp only: nat_int)
  have xs1: "drop (nat (sr_off s1 - ofs)) content = drop (length ?b) ?xs"
    by (simp add: p1 add.commute)
  from Cons.IH [OF inv1] obtain s' where
    rs: "reads (UncompressedFile s1 e) lens =
           (take (sum_list lens) (drop (length ?b) ?xs), UncompressedFile s' e)"
    and inv': "section_inv src ofs n s'"
    and off': "sr_off s' = sr_off s1 + int (length (take (sum_list lens) (drop (length ?b) ?xs)))"
    unfolding xs1 by blast
  have joined: "?b @ take (sum_list lens) (drop (length ?b) ?xs) = take (l + sum_list lens) ?xs"
    by (rule take_then_take)
  have total: "sum_list (l # lens) = l + sum_list lens" by simp
  have "reads (UncompressedFile s e) (l # lens) =
          (?b @ take (sum_list lens) (drop (length ?b) ?xs), UncompressedFile s' e)"
    using r rs by simp
  then have R: "reads (UncompressedFile s e) (l # lens) =
                  (take (sum_list (l # lens)) ?xs, UncompressedFile s' e)"
    unfolding joined total .
  have "length (?b @ take (sum_list lens) (drop (length ?b) ?xs))
          = length (take (sum_list (l # lens)) ?xs)"
    unfolding joined total ..
  then have "int (length (take (sum_list (l # lens)) ?xs))
               = int (length ?b) + int (length (take (sum_list lens) (drop (length ?b) ?xs)))"
    by (simp only: length_append of_nat_add)
  with off' off1
  have O: "sr_off s' = sr_off s + int (length (take (sum_list (l # lens)) ?xs))"
    by linarith
  show ?case
  proof (intro exI conjI)
    show "reads (UncompressedFile s e) (l # lens) =
            (take (sum_list (l # lens)) ?xs, UncompressedFile s' e)" by (rule R)
    show "section_inv src ofs n s'" by (rule inv')
    show "sr_off s' = sr_off s + int (length (take (sum_list (l # lens)) ?xs))" by (rule O)
  qed
qed

text \<open>
  Claim C3 does not hold for an arbitrary byte source: \<^verbatim>\<open>NewZipFSWithReaderAt\<close> takes
  any source and does not compare it with the archive. With a source that holds
  \<^verbatim>\<open>jelly\<close>, the handle of the stored entry \<^verbatim>\<open>a.txt\<close> returns \<^verbatim>\<open>jelly\<close>, while the
  sequential read of the same entry produces \<^verbatim>\<open>hello\<close>.
\<close>

theorem stored_entry_other_source:
  "Name (scenario ! 0) = ''a.txt'' \<and> Method (scenario ! 0) = Store \<and>
   (case OpenStream (scenario ! 0) of Inl err \<Rightarrow> None | Inr st \<Rightarrow> Some (ReadAll st))
     = Some (Inr ''hello'') \<and>
   (case Open other_source_fs ''/a.txt'' of Inl err \<Rightarrow> None | Inr h \<Rightarrow> Some (fst (reads h [5])))
     = Some ''jelly''"
  by code_simp

text \<open>
  Claim C3, with the byte source holding the entry's bytes. Let the index hold, at an
  absolute path, an entry whose method is \<open>Store\<close>, let a byte source be supplied, and let
  the source hold at the entry's data offset the bytes \<open>content\<close> that a full sequential
  read of the entry's stream produces, as many as the entry's uncompressed size. Then
  \<^verbatim>\<open>Open\<close> returns a handle such that: successive reads on the fresh handle return
  \<open>content\<close> from its start, in order, so reads that cover the entry return exactly
  \<open>content\<close>; after any run of reads and seeks, a seek from the start to any offset \<open>k\<close>
  up to the entry's size succeeds and reports \<open>k\<close>, and successive reads after it return
  \<open>content\<close> from \<open>k\<close> on; and at whatever position the handle reports, successive reads
  return \<open>content\<close> from that position on and leave the handle reporting the position
  moved by the number of bytes returned.
\<close>

theorem stored_entry_random_access:
  assumes abs: "HasPrefix name ''/''"
      and idx: "lookup (trie fs) (path_segments name) = Some (MetaFile entry)"
      and rAt: "readerAt fs = Some src"
      and stored: "Method entry = Store"
      and dofs: "DataOffset entry = Inr ofs"
      and ofs: "0 \<le> ofs"
      and sequential: "OpenStream entry = Inr st" "ReadAll st = Inr content"
      and size: "UncompressedSize64 entry = length content"
      and bytes: "take (length content) (drop (nat ofs) src) = content"
      and range: "ofs + int (length content) \<le> maxint64"
  shows "\<exists>h. Open fs name = Inr h \<and>
           (\<forall>lens. fst (reads h lens) = take (sum_list lens) content) \<and>
           (\<forall>calls k lens. k \<le> length content \<longrightarrow>
              fst (file_Seek (performs h calls) (int k) SeekStart) = (int k, None) \<and>
              fst (reads (snd (file_Seek (performs h calls) (int k) SeekStart)) lens)
                = take (sum_list lens) (drop k content)) \<and>
           (\<forall>calls lens. \<exists>pos.
              fst (file_Seek (performs h calls) 0 SeekCurrent) = (int pos, None) \<and>
              fst (reads (performs h calls) lens) = take (sum_list lens) (drop pos content) \<and>
              fst (file_Seek (snd (reads (performs h calls) lens)) 0 SeekCurrent)
                = (int (pos + length (take (sum_list lens) (drop pos content))), None))"
proof -
  let ?n = "length content"
  let ?s0 = "NewSectionReader src ofs (int64 (int (UncompressedSize64 entry)))"
  let ?h = "UncompressedFile ?s0 entry"
  have opened: "Open fs name = Inr ?h"
    using abs idx rAt stored dofs by (simp add: Open_lookup processZipFile_def)
  have inv0: "section_inv src ofs ?n ?s0"
    using NewSectionReader_inv [OF ofs range] size by simp
  have start: "sr_off ?s0 = ofs" by (simp add: NewSectionReader_def)
  have fresh: "fst (reads ?h lens) = take (sum_list lens) content" for lens
    using reads_uncompressed [OF bytes refl inv0, of entry lens] start by auto
  have seek: "fst (file_Seek (performs ?h calls) (int k) SeekStart) = (int k, None) \<and>
              fst (reads (snd (file_Seek (performs ?h calls) (int k) SeekStart)) lens)
                = take (sum_list lens) (drop k content)"
    if k: "k \<le> ?n" for calls k lens
  proof -
    from performs_uncompressed [OF inv0, of entry calls] obtain s' where
      s': "performs ?h calls = UncompressedFile s' entry"
      and inv': "section_inv src ofs ?n s'" by blast
    note sk = SectionReader_Seek_start [OF inv' k]
    have inv'': "section_inv src ofs ?n (s'\<lparr>sr_off := ofs + int k\<rparr>)"
      using SectionReader_Seek_inv [OF inv', of "int k" SeekStart] sk by simp
    from reads_uncompressed [OF bytes refl inv'', of entry lens]
    show ?thesis by (auto simp: s' sk)
  qed
  have tell: "\<exists>pos. fst (file_Seek (performs ?h calls) 0 SeekCurrent) = (int pos, None) \<and>
              fst (reads (performs ?h calls) lens) = take (sum_list lens) (drop pos content) \<and>
              fst (file_Seek (snd (reads (performs ?h calls) lens)) 0 SeekCurrent)
                = (int (pos + length (take (sum_list lens) (drop pos content))), None)"
    for calls lens
  proof -
    from performs_uncompressed [OF inv0, of entry calls] obtain s' where
      s': "performs ?h calls = UncompressedFile s' entry"
      and inv': "section_inv src ofs ?n s'" by blast
    define pos where "pos = nat (sr_off s' - ofs)"
    have pos: "sr_off s' - ofs = int pos"
      using inv' by (simp add: section_inv_def pos_def)
    from reads_uncompressed [OF bytes refl inv', of entry lens] obtain s'' where
      rd: "reads (UncompressedFile s' entry) lens =
             (take (sum_list lens) (drop pos content), UncompressedFile s'' entry)"
      and inv'': "section_inv src ofs ?n s''"
      and off'': "sr_off s'' = sr_off s' + int (length (take (sum_list lens) (drop pos content)))"
      unfolding pos_def by blast
    have "fst (file_Seek (UncompressedFile s' entry) 0 SeekCurrent) = (int pos, None)"
      using SectionReader_Seek_current [OF inv'] pos by simp
    moreover have "fst (reads (UncompressedFile s' entry) lens) = take (sum_list lens) (drop pos content)"
      using rd by simp
    moreover have "fst (file_Seek (snd (reads (UncompressedFile s' entry) lens)) 0 SeekCurrent)
                     = (int (pos + length (take (sum_list lens) (drop pos content))), None)"
      using SectionReader_Seek_current [OF inv''] off'' pos rd by simp
    ultimately show ?thesis unfolding s' by blast
  qed
  from opened fresh seek tell show ?thesis by blast
qed

theorem stored_entry_random_access_witness:
  "Open scenario_fs ''/a.txt'' =
     Inr (UncompressedFile (NewSectionReader ''hello'' 0 5) (entry_of ''a.txt'' Store ''hello'')) \<and>
   ReadAll \<lparr>pending = ''hello'', final = EOF\<rparr> = Inr ''hello'' \<and>
   fst (reads (UncompressedFile (NewSectionReader ''hello'' 0 5) (entry_of ''a.txt'' Store ''hello''))
          [2, 2, 2]) = ''hello'' \<and>
   fst (file_Seek (performs (UncompressedFile (NewSectionReader ''hello'' 0 5) (entry_of ''a.txt'' Store ''hello''))
                     [ReadCall 2, SeekCall (- 1) SeekEnd, ReadCall 4]) 1 SeekStart) = (1, None) \<and>
   fst (reads (snd (file_Seek
       (performs (UncompressedFile (NewSectionReader ''hello'' 0 5) (entry_of ''a.txt'' Store ''hello''))
          [ReadCall 2, SeekCall (- 1) SeekEnd, ReadCall 4]) 1 SeekStart)) [1, 2, 3]) = ''ello''"
proof -
  let ?e = "entry_of ''a.txt'' Store ''hello''"
  let ?h = "UncompressedFile (NewSectionReader ''hello'' 0 5) ?e"
  have p1: "HasPrefix ''/a.txt'' ''/''" by code_simp
  have l1: "lookup (trie scenario_fs) (path_segments ''/a.txt'') = Some (MetaFile ?e)" by code_simp
  have r: "readerAt scenario_fs = Some ''hello''" by code_simp
  have m1: "Method ?e = Store" by code_simp
  have d1: "DataOffset ?e = Inr 0" by code_simp
  have z: "(0::int) \<le> 0" by simp
  have s1: "OpenStream ?e = Inr \<lparr>pending = ''hello'', final = EOF\<rparr>" by code_simp
  have a1: "ReadAll \<lparr>pending = ''hello'', final = EOF\<rparr> = Inr ''hello''" by code_simp
  have u1: "UncompressedSize64 ?e = length ''hello''" by code_simp
  have b1: "take (length ''hello'') (drop (nat 0) ''hello'') = ''hello''" by simp
  have g1: "0 + int (length ''hello'') \<le> maxint64" by code_simp
  have o: "Open scenario_fs ''/a.txt'' = Inr ?h" by code_simp
  from stored_entry_random_access [OF p1 l1 r m1 d1 z s1 a1 u1 b1 g1]
  obtain h where oh: "Open scenario_fs ''/a.txt'' = Inr h"
    and fresh: "\<forall>lens. fst (reads h lens) = take (sum_list lens) ''hello''"
    and seek: "\<forall>calls k lens. k \<le> length ''hello'' \<longrightarrow>
          fst (file_Seek (performs h calls) (int k) SeekStart) = (int k, None) \<and>
          fst (reads (snd (file_Seek (performs h calls) (int k) SeekStart)) lens)
            = take (sum_list lens) (drop k ''hello'')"
    by (elim exE conjE)
  from oh o have h: "h = ?h" by simp
  have k: "(1::nat) \<le> length ''hello''" by simp
  have f: "fst (reads ?h [2, 2, 2]) = take (sum_list [2, 2, 2]) ''hello''"
    using fresh [rule_format, of "[2, 2, 2]"] unfolding h .
  have sk: "fst (file_Seek (performs ?h [ReadCall 2, SeekCall (- 1) SeekEnd, ReadCall 4]) (int 1) SeekStart)
              = (int 1, None) \<and>
            fst (reads (snd (file_Seek (performs ?h [ReadCall 2, SeekCall (- 1) SeekEnd, ReadCall 4])
                               (int 1) SeekStart)) [1, 2, 3])
              = take (sum_list [1, 2, 3]) (drop 1 ''hello'')"
    using seek [rule_format, OF k, of "[ReadCall 2, SeekCall (- 1) SeekEnd, ReadCall 4]" "[1, 2, 3]"]
    unfolding h .
  have t1: "take (sum_list [2, 2, 2]) ''hello'' = ''hello''" by simp
  have t2: "take (sum_list [1, 2, 3]) (drop 1 ''hello'') = ''ello''" by simp
  have i1: "int 1 = 1" by simp
  from f sk o a1 show ?thesis unfolding t1 t2 i1 by (intro conjI) (erule conjunct1 conjunct2 | assumption)+
qed

section \<open>The root listing and the listing of a directory\<close>

text \<open>The code's test for a top-level entry: the trimmed name holds no slash.\<close>

lemma Split_single: "length (Split s sep) = 1 \<longleftrightarrow> sep \<notin> set s"
proof (induction s)
  case Nil
  then show ?case by simp
next
  case (Cons c cs)
  then show ?case using Split_nonempty [of cs sep] by (auto split: list.splits)
qed

lemma one_segment_iff: "one_segment name \<longleftrightarrow> CHR ''/'' \<notin> set (TrimRight name ''/'')"
  using Split_single [of "TrimRight name ''/''" "CHR ''/''"] by (simp add: one_segment_def)

text \<open>
  Whenever construction completes, \<^verbatim>\<open>Open("/")\<close> returns the root handle, whose children
  are the archive's entries with a one-segment trimmed name, in archive order; the
  construction of \<^verbatim>\<open>zipfs.go\<close> always completes and gives the same root listing.
\<close>

lemma root_listing:
  assumes "NewZipFSWithReaderAt z rAt now = Inr fs"
  shows "Open fs ''/'' =
           Inr (ZipRootFile \<lparr>zipDir = \<lparr>Info = zero_FileHeader,
                                        Files = filter (\<lambda>e. one_segment (Name e)) z\<rparr>,
                              RootInfo = \<lparr>rootTime = now\<rparr>\<rparr>)"
proof -
  have abs: "HasPrefix ''/'' ''/''" by (simp add: HasPrefix_def)
  from assms show ?thesis
    by (auto simp: NewZipFSWithReaderAt_def foldl_index_entry Open_lookup [OF abs] lookup_Add
             split: sum.splits)
qed

lemma foldl_index_entry_zipfs_go:
  "snd (foldl (index_entry_zipfs_go z) (tr, rf) is) =
     rf @ map (\<lambda>i. z ! i) (filter (\<lambda>i. one_segment (Name (z ! i))) is)"
  by (induction "is" arbitrary: tr rf) (simp_all add: index_entry_zipfs_go_def)

lemma root_listing_zipfs_go:
  "Open_zipfs_go (NewZipFS_zipfs_go z now) ''/'' =
     Inr (ZipRootFile \<lparr>zipDir = \<lparr>Info = zero_FileHeader,
                                  Files = filter (\<lambda>e. one_segment (Name e)) z\<rparr>,
                        RootInfo = \<lparr>rootTime = now\<rparr>\<rparr>)"
proof -
  have abs: "HasPrefix ''/'' ''/''" by (simp add: HasPrefix_def)
  have "map (\<lambda>i. z ! i) (filter (\<lambda>i. one_segment (Name (z ! i))) [0..<length z])
          = filter (\<lambda>e. one_segment (Name e)) (map (\<lambda>i. z ! i) [0..<length z])"
    by (simp add: filter_map comp_def)
  also have "\<dots> = filter (\<lambda>e. one_segment (Name e)) z" by (simp add: map_nth)
  finally have files: "snd (foldl (index_entry_zipfs_go z) (newTrie, []) [0..<length z])
                         = filter (\<lambda>e. one_segment (Name e)) z"
    by (simp add: foldl_index_entry_zipfs_go)
  show ?thesis
    using files
    by (auto simp: NewZipFS_zipfs_go_def Open_zipfs_go_lookup [OF abs] lookup_Add split: prod.splits)
qed

text \<open>
  Claim C2 on an archive that lists \<^verbatim>\<open>x/y/\<close> before \<^verbatim>\<open>x/\<close>. The construction of the
  unnamed source file panics in its second loop, so no filesystem exists on which
  \<^verbatim>\<open>Open("/")\<close> could succeed; the construction of \<^verbatim>\<open>zipfs.go\<close> on the same archive
  completes and its root lists \<^verbatim>\<open>x/\<close> and \<^verbatim>\<open>top.txt\<close>.
\<close>

theorem root_listing_lost_to_panic:
  "NewZipFSWithReaderAt
     [entry_of ''x/y/'' Store [], entry_of ''x/'' Store [], entry_of ''top.txt'' Store ''t''] rAt now
     = Inl TypeAssertionPanic \<and>
   Open_zipfs_go
     (NewZipFS_zipfs_go
        [entry_of ''x/y/'' Store [], entry_of ''x/'' Store [], entry_of ''top.txt'' Store ''t''] now) ''/''
     = Inr (ZipRootFile \<lparr>zipDir = \<lparr>Info = zero_FileHeader,
              Files = [entry_of ''x/'' Store [], entry_of ''top.txt'' Store ''t'']\<rparr>,
            RootInfo = \<lparr>rootTime = now\<rparr>\<rparr>)"
  by code_simp

text \<open>
  Claim C1 on an archive that lists \<^verbatim>\<open>d/sub/\<close> before \<^verbatim>\<open>d/\<close>. The construction of the
  unnamed source file panics while it collects the children of \<^verbatim>\<open>d/\<close>, so \<^verbatim>\<open>Open("/d")\<close>
  returns no listing; the construction of \<^verbatim>\<open>zipfs.go\<close> on the same archive completes
  and \<^verbatim>\<open>/d\<close> lists \<^verbatim>\<open>sub/\<close> and \<^verbatim>\<open>f.txt\<close>.
\<close>

theorem directory_listing_lost_to_panic:
  "NewZipFSWithReaderAt
     [entry_of ''d/sub/'' Store [], entry_of ''d/'' Store [], entry_of ''d/f.txt'' Store ''f''] rAt now
     = Inl TypeAssertionPanic \<and>
   Open_zipfs_go
     (NewZipFS_zipfs_go
        [entry_of ''d/sub/'' Store [], entry_of ''d/'' Store [], entry_of ''d/f.txt'' Store ''f''] now) ''/d''
     = Inr (ZipDirFile \<lparr>Info = FileHeader.truncate (entry_of ''d/'' Store []),
              Files = [entry_of ''sub/'' Store [], entry_of ''f.txt'' Store ''f'']\<rparr>)"
  by code_simp

text \<open>The scenario of the specification's section 8, with parents listed first.\<close>

lemma scenario_listing:
  "Open scenario_fs ''/'' =
     Inr (ZipRootFile \<lparr>zipDir = \<lparr>Info = zero_FileHeader,
            Files = [entry_of ''a.txt'' Store ''hello'', entry_of ''dir/'' Store []]\<rparr>,
          RootInfo = \<lparr>rootTime = 0\<rparr>\<rparr>) \<and>
   Open scenario_fs ''/dir'' =
     Inr (ZipDirFile \<lparr>Info = FileHeader.truncate (entry_of ''dir/'' Store []),
            Files = [entry_of ''b.txt'' Deflate ''world'']\<rparr>)"
  by code_simp

end
